theory Spec2Isabelle
  imports Complex_Main "HOL-Library.Sublist"
begin

section \<open>RenderFlow render service: data model\<close>

text \<open>
  The render service of the renderer package (the file with \<^verbatim>\<open>class RenderQueue\<close> and
  \<^verbatim>\<open>class RenderService\<close>) is embedded here. JavaScript numbers are modelled as
  \<^typ>\<open>int\<close> (the engine's fractional progress as \<^typ>\<open>real\<close>), optional properties as
  \<^typ>\<open>'a option\<close> with \<open>None\<close> for \<^verbatim>\<open>undefined\<close>, thrown errors by their message, and
  a \<^verbatim>\<open>Date\<close> by a \<^typ>\<open>nat\<close> supplied by the caller of the model. \<^verbatim>\<open>NaN\<close> and fractional
  durations, frame rates and concurrency caps are outside the model.
\<close>

datatype RenderStatus = queued | bundling | rendering | encoding | completed | failed | cancelled

datatype AspectRatio = landscape | portrait | square

datatype Quality = draft | standard | high

record DimensionConfig =
  width :: int
  height :: int
  aspectRatio :: AspectRatio

fun DIMENSIONS :: "AspectRatio \<Rightarrow> DimensionConfig" where
  "DIMENSIONS landscape = \<lparr>width = 1920, height = 1080, aspectRatio = landscape\<rparr>"
| "DIMENSIONS portrait = \<lparr>width = 1080, height = 1920, aspectRatio = portrait\<rparr>"
| "DIMENSIONS square = \<lparr>width = 1080, height = 1080, aspectRatio = square\<rparr>"

record QualityPreset =
  crf :: int
  codec :: string

fun QUALITY_PRESETS :: "Quality \<Rightarrow> QualityPreset" where
  "QUALITY_PRESETS draft = \<lparr>crf = 28, codec = ''h264''\<rparr>"
| "QUALITY_PRESETS standard = \<lparr>crf = 20, codec = ''h264''\<rparr>"
| "QUALITY_PRESETS high = \<lparr>crf = 15, codec = ''h264''\<rparr>"

subsection \<open>The composition registry\<close>

record Composition =
  comp_id :: string
  comp_name :: string
  description :: string
  category :: string
  defaultDuration :: int
  contentTypes :: "string list"
  formats :: "AspectRatio list"

definition COMPOSITIONS :: "(string \<times> Composition) list" where
  "COMPOSITIONS =
    [(''EventPromo'', \<lparr>comp_id = ''EventPromo'', comp_name = ''Event Promo'',
        description = ''Single event spotlight with animated details'',
        category = ''promo'', defaultDuration = 10, contentTypes = [''event''],
        formats = [landscape, portrait, square]\<rparr>),
     (''EventReel'', \<lparr>comp_id = ''EventReel'', comp_name = ''Event Reel'',
        description = ''Multiple events rotating through with transitions'',
        category = ''promo'', defaultDuration = 30, contentTypes = [''event''],
        formats = [landscape, portrait, square]\<rparr>),
     (''ProductBoard'', \<lparr>comp_id = ''ProductBoard'', comp_name = ''Product Board'',
        description = ''Menu or product grid display'',
        category = ''menu'', defaultDuration = 15, contentTypes = [''product''],
        formats = [landscape, portrait, square]\<rparr>),
     (''StatsDashboard'', \<lparr>comp_id = ''StatsDashboard'', comp_name = ''Stats Dashboard'',
        description = ''Animated statistics display with counters'',
        category = ''stats'', defaultDuration = 8, contentTypes = [''stat''],
        formats = [landscape, portrait, square]\<rparr>),
     (''Branding'', \<lparr>comp_id = ''Branding'', comp_name = ''Branding'',
        description = ''Logo reveal with various effects'',
        category = ''branding'', defaultDuration = 5, contentTypes = [''media''],
        formats = [landscape, portrait, square]\<rparr>),
     (''Alert'', \<lparr>comp_id = ''Alert'', comp_name = ''Alert'',
        description = ''Announcement or alert banner'',
        category = ''alert'', defaultDuration = 6, contentTypes = [''message''],
        formats = [landscape, portrait, square]\<rparr>)]"

text \<open>
  \<^verbatim>\<open>COMPOSITIONS\<close> is a plain object literal, and \<^verbatim>\<open>COMPOSITIONS[input.compositionId]\<close>
  is a JavaScript property read: a key the literal does not own is looked up on
  \<^verbatim>\<open>Object.prototype\<close>, whose members are functions (or, for \<^verbatim>\<open>__proto__\<close>, the prototype
  object itself), all truthy and none with a \<^verbatim>\<open>defaultDuration\<close>. The static type
  \<^verbatim>\<open>CompositionId\<close> admits the six registered keys only; the check
  \<^verbatim>\<open>if (!composition)\<close> in \<^verbatim>\<open>createJob\<close> is there for callers that bypass it, so the
  identifier is a string here and the read is modelled as JavaScript performs it.
\<close>

definition Object_prototype_keys :: "string list" where
  "Object_prototype_keys =
    [''constructor'', ''__defineGetter__'', ''__defineSetter__'', ''hasOwnProperty'',
     ''__lookupGetter__'', ''__lookupSetter__'', ''isPrototypeOf'', ''propertyIsEnumerable'',
     ''toString'', ''valueOf'', ''__proto__'', ''toLocaleString'']"

datatype property = Registered Composition | Inherited

definition COMPOSITIONS_get :: "string \<Rightarrow> property option" where
  "COMPOSITIONS_get key =
     (case map_of COMPOSITIONS key of
        Some c \<Rightarrow> Some (Registered c)
      | None \<Rightarrow> if key \<in> set Object_prototype_keys then Some Inherited else None)"

text \<open>\<^verbatim>\<open>composition.defaultDuration\<close>: \<^verbatim>\<open>undefined\<close> on an inherited member.\<close>

fun defaultDuration_of :: "property \<Rightarrow> int option" where
  "defaultDuration_of (Registered c) = Some (defaultDuration c)"
| "defaultDuration_of Inherited = None"

subsection \<open>Jobs\<close>

text \<open>
  \<^verbatim>\<open>RenderJob extends RenderJobInput\<close> and retypes \<^verbatim>\<open>outputPath\<close>, so the two are separate
  records; the fields of the input carry the prefix \<open>in_\<close>. The field \<^verbatim>\<open>id\<close> is \<open>job_id\<close>.
\<close>

record RenderJobInput =
  in_compositionId :: string
  in_inputProps :: "(string \<times> string) list"
  in_format :: "AspectRatio option"
  in_duration :: "int option"
  in_fps :: "int option"
  in_quality :: "Quality option"
  in_outputPath :: "string option"
  in_outputFilename :: "string option"

record RenderJob =
  compositionId :: string
  inputProps :: "(string \<times> string) list"
  format :: "AspectRatio option"
  duration :: "int option"
  fps :: "int option"
  quality :: "Quality option"
  outputFilename :: "string option"
  job_id :: string
  status :: RenderStatus
  progress :: int
  error :: "string option"
  outputPath :: string
  thumbnailPath :: "string option"
  createdAt :: nat
  startedAt :: "nat option"
  completedAt :: "nat option"

record RenderProgress =
  jobId :: string
  p_status :: RenderStatus
  p_progress :: int

text \<open>
  A \<^verbatim>\<open>ProgressCallback\<close> is a function object; \<^verbatim>\<open>indexOf\<close> compares callbacks by
  identity, so a callback is modelled by a number naming the object.
\<close>

type_synonym ProgressCallback = nat

text \<open>
  JavaScript truthiness of \<^verbatim>\<open>number | undefined\<close> and \<^verbatim>\<open>string | undefined\<close>:
  \<open>num_or x d\<close> is \<^verbatim>\<open>x || d\<close> for a default that may itself be \<^verbatim>\<open>undefined\<close>, \<open>num_or_d\<close> for
  a numeric literal as default.
\<close>

fun num_or :: "int option \<Rightarrow> int option \<Rightarrow> int option" where
  "num_or None d = d"
| "num_or (Some n) d = (if n = 0 then d else Some n)"

fun num_or_d :: "int option \<Rightarrow> int \<Rightarrow> int" where
  "num_or_d None d = d"
| "num_or_d (Some n) d = (if n = 0 then d else n)"

fun truthy_str :: "string option \<Rightarrow> bool" where
  "truthy_str None = False"
| "truthy_str (Some s) = (s \<noteq> [])"

section \<open>RenderQueue\<close>

text \<open>
  \<^verbatim>\<open>jobs\<close> is a \<^verbatim>\<open>Map\<close>, \<^verbatim>\<open>queue\<close> an array, \<^verbatim>\<open>processing\<close> a \<^verbatim>\<open>Set\<close> (kept as the list
  of its members in insertion order, \<^verbatim>\<open>size\<close> being its length). The field \<open>calls\<close> is
  not in the source: it records, in order, each invocation of a listener by
  \<^verbatim>\<open>notifyProgress\<close> with the snapshot passed to it. A listener is taken to return
  normally and not to call the service while it runs.
\<close>

record RenderQueue =
  jobs :: "string \<rightharpoonup> RenderJob"
  queue :: "string list"
  processing :: "string list"
  maxConcurrent :: int
  listeners :: "string \<rightharpoonup> ProgressCallback list"
  calls :: "(ProgressCallback \<times> RenderProgress) list"

definition newQueue :: "int \<Rightarrow> RenderQueue" where
  "newQueue n = \<lparr>jobs = Map.empty, queue = [], processing = [], maxConcurrent = n,
                 listeners = Map.empty, calls = []\<rparr>"

definition Set_add :: "string \<Rightarrow> string list \<Rightarrow> string list" where
  "Set_add x xs = (if x \<in> set xs then xs else xs @ [x])"

definition Set_delete :: "string \<Rightarrow> string list \<Rightarrow> string list" where
  "Set_delete x xs = filter (\<lambda>y. y \<noteq> x) xs"

definition add :: "RenderJob \<Rightarrow> RenderQueue \<Rightarrow> RenderQueue" where
  "add job q = q\<lparr>jobs := (jobs q)(job_id job \<mapsto> job), queue := queue q @ [job_id job]\<rparr>"

definition get :: "string \<Rightarrow> RenderQueue \<Rightarrow> RenderJob option" where
  "get jid q = jobs q jid"

definition getPending :: "RenderQueue \<Rightarrow> RenderJob option list" where
  "getPending q = map (jobs q) (queue q)"

definition getProcessing :: "RenderQueue \<Rightarrow> RenderJob option list" where
  "getProcessing q = map (jobs q) (processing q)"

definition canProcess :: "RenderQueue \<Rightarrow> bool" where
  "canProcess q = (int (length (processing q)) < maxConcurrent q \<and> length (queue q) > 0)"

text \<open>
  \<^verbatim>\<open>dequeue\<close>: \<^verbatim>\<open>shift()\<close> removes the head before the test \<^verbatim>\<open>if (!jobId)\<close>, which is
  true for an empty array and for the empty string.
\<close>

definition dequeue :: "RenderQueue \<Rightarrow> RenderJob option \<times> RenderQueue" where
  "dequeue q =
     (case queue q of
        [] \<Rightarrow> (None, q)
      | jid # rest \<Rightarrow>
          if jid = [] then (None, q\<lparr>queue := rest\<rparr>)
          else (jobs q jid, q\<lparr>queue := rest, processing := Set_add jid (processing q)\<rparr>))"

text \<open>\<^verbatim>\<open>complete\<close>, named \<open>complete_job\<close> beside the \<open>complete\<close> of the library.\<close>

definition complete_job :: "string \<Rightarrow> RenderQueue \<Rightarrow> RenderQueue" where
  "complete_job jid q = q\<lparr>processing := Set_delete jid (processing q)\<rparr>"

definition notifyProgress :: "RenderJob \<Rightarrow> RenderQueue \<Rightarrow> RenderQueue" where
  "notifyProgress job q =
     (let ls = (case listeners q (job_id job) of None \<Rightarrow> [] | Some l \<Rightarrow> l);
          snapshot = \<lparr>jobId = job_id job, p_status = status job, p_progress = progress job\<rparr>
      in q\<lparr>calls := calls q @ map (\<lambda>cb. (cb, snapshot)) ls\<rparr>)"

text \<open>
  \<^verbatim>\<open>update\<close>: the partial record \<^verbatim>\<open>updates\<close> merged by \<^verbatim>\<open>Object.assign\<close> is the function
  \<open>upd\<close> that sets the corresponding fields.
\<close>

definition update :: "string \<Rightarrow> (RenderJob \<Rightarrow> RenderJob) \<Rightarrow> RenderQueue \<Rightarrow> RenderQueue" where
  "update jid upd q =
     (case jobs q jid of
        None \<Rightarrow> q
      | Some job \<Rightarrow> notifyProgress (upd job) (q\<lparr>jobs := (jobs q)(jid \<mapsto> upd job)\<rparr>))"

definition subscribe :: "string \<Rightarrow> ProgressCallback \<Rightarrow> RenderQueue \<Rightarrow> RenderQueue" where
  "subscribe jid cb q =
     q\<lparr>listeners := (listeners q)(jid \<mapsto> (case listeners q jid of None \<Rightarrow> [] | Some l \<Rightarrow> l) @ [cb])\<rparr>"

text \<open>
  The closure returned by \<^verbatim>\<open>subscribe(jobId, callback)\<close>, applied to the queue as it is
  when the closure is called: \<^verbatim>\<open>indexOf\<close> finds the first occurrence and
  \<^verbatim>\<open>splice(index, 1)\<close> removes that one element.
\<close>

definition unsubscribe :: "string \<Rightarrow> ProgressCallback \<Rightarrow> RenderQueue \<Rightarrow> RenderQueue" where
  "unsubscribe jid cb q =
     (case listeners q jid of
        None \<Rightarrow> q
      | Some l \<Rightarrow> if cb \<in> set l then q\<lparr>listeners := (listeners q)(jid \<mapsto> remove1 cb l)\<rparr> else q)"

section \<open>RenderService\<close>

record RenderServiceConfig =
  outputDir :: string
  entryPoint :: string
  concurrency :: "int option"

definition DEFAULT_CONFIG :: RenderServiceConfig where
  "DEFAULT_CONFIG = \<lparr>outputDir = ''./output'', entryPoint = ''./src/index.ts'', concurrency = Some 4\<rparr>"

text \<open>
  The constructor's argument is a \<^verbatim>\<open>Partial<RenderServiceConfig>\<close>. A property of it is
  absent (\<open>None\<close>; the spread keeps the default) or present; a present \<^verbatim>\<open>concurrency\<close> is
  a number or \<^verbatim>\<open>undefined\<close>, which the spread copies over the default.
\<close>

record PartialConfig =
  cfg_outputDir :: "string option"
  cfg_entryPoint :: "string option"
  cfg_concurrency :: "int option option"

definition mergeConfig :: "PartialConfig \<Rightarrow> RenderServiceConfig" where
  "mergeConfig c =
     \<lparr>outputDir = (case cfg_outputDir c of None \<Rightarrow> outputDir DEFAULT_CONFIG | Some d \<Rightarrow> d),
      entryPoint = (case cfg_entryPoint c of None \<Rightarrow> entryPoint DEFAULT_CONFIG | Some e \<Rightarrow> e),
      concurrency = (case cfg_concurrency c of None \<Rightarrow> concurrency DEFAULT_CONFIG | Some n \<Rightarrow> n)\<rparr>"

text \<open>
  The promise returned by a call of the bundler \<^verbatim>\<open>bundle(...)\<close> is named by the number of
  the call; \<open>builds\<close> holds the state of each of these promises, so its length is the
  number of times the bundler was invoked.

  An \<^verbatim>\<open>async\<close> function runs until its first \<^verbatim>\<open>await\<close> and is resumed later. What
  \<^verbatim>\<open>getBundle()\<close> hands to its caller is one of: its own body suspended at
  \<^verbatim>\<open>await this.bundlePromise\<close> on build \<open>p\<close> (\<open>Building p\<close>), the memoized promise of build
  \<open>p\<close> (\<open>OnPromise p\<close>), the cached location (\<open>Value\<close>), or, once a suspended body was
  resumed by a rejection, the error it threw (\<open>Thrown\<close>).
\<close>

datatype promise_state = Pending | Fulfilled string | Rejected string

datatype awaited = Building nat | OnPromise nat | Value string | Thrown string

text \<open>
  The suspended \<^verbatim>\<open>processJob\<close> of a job: at \<^verbatim>\<open>await this.getBundle()\<close>, at
  \<^verbatim>\<open>await selectComposition\<close>, at \<^verbatim>\<open>await renderMedia\<close>, at \<^verbatim>\<open>await renderStill\<close>; the
  last three carry the local \<^verbatim>\<open>bundleLocation\<close>.
\<close>

datatype phase = AwaitBundle awaited | AwaitSelect string | AwaitRender string | AwaitStill string

text \<open>
  The fields \<open>builds\<close> and \<open>tasks\<close> are the promises and suspended calls of the model.
  The local \<^verbatim>\<open>job\<close> of a suspended \<^verbatim>\<open>processJob\<close> is the object stored in the map under
  its identifier, so \<open>tasks\<close> is keyed by the identifier and the job's fields are read
  from the map.
\<close>

record RenderService =
  config :: RenderServiceConfig
  rqueue :: RenderQueue
  bundlePromise :: "nat option"
  bundleLocation :: "string option"
  isProcessing :: bool
  builds :: "promise_state list"
  tasks :: "string \<rightharpoonup> phase"

text \<open>The constructor; the creation of the output directory is not modelled.\<close>

definition newService :: "PartialConfig \<Rightarrow> RenderService" where
  "newService c =
     (let cfg = mergeConfig c
      in \<lparr>config = cfg,
          rqueue = newQueue (num_or_d (concurrency cfg) 2),
          bundlePromise = None, bundleLocation = None, isProcessing = False,
          builds = [], tasks = Map.empty\<rparr>)"

subsection \<open>Bundle management\<close>

definition getBundle :: "RenderService \<Rightarrow> awaited \<times> RenderService" where
  "getBundle s =
     (if truthy_str (bundleLocation s) then (Value (case bundleLocation s of Some l \<Rightarrow> l | None \<Rightarrow> []), s)
      else case bundlePromise s of
             Some p \<Rightarrow> (OnPromise p, s)
           | None \<Rightarrow> (Building (length (builds s)),
                      s\<lparr>bundlePromise := Some (length (builds s)), builds := builds s @ [Pending]\<rparr>))"

definition invalidateBundle :: "RenderService \<Rightarrow> RenderService" where
  "invalidateBundle s = s\<lparr>bundleLocation := None, bundlePromise := None\<rparr>"

text \<open>The bundler settles the promise of build \<open>p\<close>, once.\<close>

definition settle :: "nat \<Rightarrow> string + string \<Rightarrow> RenderService \<Rightarrow> RenderService option" where
  "settle p r s =
     (if p < length (builds s) \<and> builds s ! p = Pending
      then Some (s\<lparr>builds := (builds s)[p := (case r of Inl e \<Rightarrow> Rejected e | Inr l \<Rightarrow> Fulfilled l)]\<rparr>)
      else None)"

definition promiseResult :: "RenderService \<Rightarrow> nat \<Rightarrow> (string + string) option" where
  "promiseResult s p =
     (if p < length (builds s)
      then (case builds s ! p of Pending \<Rightarrow> None | Fulfilled l \<Rightarrow> Some (Inr l) | Rejected e \<Rightarrow> Some (Inl e))
      else None)"

text \<open>
  The rest of \<^verbatim>\<open>getBundle\<close> after \<^verbatim>\<open>await this.bundlePromise\<close>, for the call that started
  build \<open>p\<close>: a fulfilled build is stored in \<^verbatim>\<open>bundleLocation\<close> and returned, a rejected one
  is thrown with nothing else done. \<open>None\<close>: the build is still pending.
\<close>

definition getBundle_resume :: "nat \<Rightarrow> RenderService \<Rightarrow> ((string + string) \<times> RenderService) option" where
  "getBundle_resume p s =
     (case promiseResult s p of
        None \<Rightarrow> None
      | Some (Inr l) \<Rightarrow> Some (Inr l, s\<lparr>bundleLocation := Some l\<rparr>)
      | Some (Inl e) \<Rightarrow> Some (Inl e, s))"



subsection \<open>Job management\<close>

text \<open>
  \<open>path_join\<close> stands for \<^verbatim>\<open>path.join\<close> of Node.js (which also normalises the result);
  nothing below depends on the joined string. \<open>u1\<close> and \<open>u2\<close> are the values of the two
  calls of \<^verbatim>\<open>uuidv4()\<close>, \<open>now\<close> that of \<^verbatim>\<open>new Date()\<close>.
\<close>

definition path_join :: "string \<Rightarrow> string \<Rightarrow> string" where
  "path_join a b = a @ ''/'' @ b"

text \<open>
  The object literal \<^verbatim>\<open>job\<close> of \<^verbatim>\<open>createJob\<close> with the constants before it;
  \<^verbatim>\<open>dims\<close> is computed there and not used.
\<close>

definition mkJob :: "RenderServiceConfig \<Rightarrow> property \<Rightarrow> nat \<Rightarrow> string \<Rightarrow> string \<Rightarrow> RenderJobInput \<Rightarrow> RenderJob" where
  "mkJob cfg composition now u1 u2 input =
     (let fmt = (case in_format input of None \<Rightarrow> landscape | Some f \<Rightarrow> f);
          dims = DIMENSIONS fmt;
          filename = (case in_outputFilename input of
                        Some f \<Rightarrow> if f \<noteq> [] then f else in_compositionId input @ ''_'' @ take 8 u1 @ ''.mp4''
                      | None \<Rightarrow> in_compositionId input @ ''_'' @ take 8 u1 @ ''.mp4'');
          path = (case in_outputPath input of
                    Some d \<Rightarrow> if d \<noteq> [] then path_join d filename else path_join (outputDir cfg) filename
                  | None \<Rightarrow> path_join (outputDir cfg) filename)
      in \<lparr>compositionId = in_compositionId input,
          inputProps = in_inputProps input,
          format = Some fmt,
          duration = num_or (in_duration input) (defaultDuration_of composition),
          fps = Some (num_or_d (in_fps input) 30),
          quality = Some (case in_quality input of None \<Rightarrow> standard | Some q \<Rightarrow> q),
          outputFilename = in_outputFilename input,
          job_id = u2,
          status = queued,
          progress = 0,
          error = None,
          outputPath = path,
          thumbnailPath = None,
          createdAt = now,
          startedAt = None,
          completedAt = None\<rparr>)"

subsection \<open>Queue processing\<close>

text \<open>
  \<^verbatim>\<open>processJob\<close> up to its first suspension: the update to \<^verbatim>\<open>bundling\<close> and the call of
  \<^verbatim>\<open>getBundle()\<close>, whose value is awaited.
\<close>

definition processJob_start :: "nat \<Rightarrow> RenderJob \<Rightarrow> RenderService \<Rightarrow> RenderService" where
  "processJob_start now job s =
     (let s1 = s\<lparr>rqueue := update (job_id job) (\<lambda>j. j\<lparr>status := bundling, startedAt := Some now\<rparr>) (rqueue s)\<rparr>;
          (a, s2) = getBundle s1
      in s2\<lparr>tasks := (tasks s2)(job_id job \<mapsto> AwaitBundle a)\<rparr>)"

text \<open>The \<^verbatim>\<open>while\<close> loop of \<^verbatim>\<open>processQueue\<close>; \<^verbatim>\<open>if (!job) break\<close> is the \<open>None\<close> case.\<close>

function processQueue_loop :: "nat \<Rightarrow> RenderService \<Rightarrow> RenderService" where
  "processQueue_loop now s =
     (if canProcess (rqueue s) then
        (case dequeue (rqueue s) of
           (None, q) \<Rightarrow> s\<lparr>rqueue := q\<rparr>
         | (Some job, q) \<Rightarrow> processQueue_loop now (processJob_start now job (s\<lparr>rqueue := q\<rparr>)))
      else s)"
  by pat_completeness auto
termination
  by (relation "measure (\<lambda>(now, s). length (queue (rqueue s)))")
     (auto simp: canProcess_def dequeue_def processJob_start_def getBundle_def update_def
        notifyProgress_def Let_def split: list.splits if_splits option.splits)

declare processQueue_loop.simps [simp del]

definition processQueue :: "nat \<Rightarrow> RenderService \<Rightarrow> RenderService" where
  "processQueue now s =
     (if isProcessing s then s
      else (processQueue_loop now (s\<lparr>isProcessing := True\<rparr>))\<lparr>isProcessing := False\<rparr>)"

text \<open>
  \<^verbatim>\<open>createJob\<close> returns the error thrown or the job, with the service as it is afterwards.
  The job returned is the object stored in the map, which \<^verbatim>\<open>processQueue\<close> may already
  have updated, so it is read from the map.
\<close>

definition createJob :: "nat \<Rightarrow> string \<Rightarrow> string \<Rightarrow> RenderJobInput \<Rightarrow> RenderService \<Rightarrow> (string + RenderJob) \<times> RenderService" where
  "createJob now u1 u2 input s =
     (case COMPOSITIONS_get (in_compositionId input) of
        None \<Rightarrow> (Inl (''Unknown composition: '' @ in_compositionId input), s)
      | Some composition \<Rightarrow>
          (let job = mkJob (config s) composition now u1 u2 input;
               s1 = s\<lparr>rqueue := add job (rqueue s)\<rparr>;
               s2 = processQueue now s1
           in (Inr (case jobs (rqueue s2) (job_id job) of Some j \<Rightarrow> j | None \<Rightarrow> job), s2)))"

definition getJob :: "string \<Rightarrow> RenderService \<Rightarrow> RenderJob option" where
  "getJob jid s = get jid (rqueue s)"

subsection \<open>The continuations of \<^verbatim>\<open>processJob\<close>\<close>

text \<open>The \<^verbatim>\<open>finally\<close> block, and the \<^verbatim>\<open>catch\<close> block followed by it.\<close>

definition processJob_finally :: "nat \<Rightarrow> string \<Rightarrow> RenderService \<Rightarrow> RenderService" where
  "processJob_finally now jid s =
     processQueue now (s\<lparr>rqueue := complete_job jid (rqueue s), tasks := (tasks s)(jid := None)\<rparr>)"

definition processJob_catch :: "nat \<Rightarrow> string \<Rightarrow> string \<Rightarrow> RenderService \<Rightarrow> RenderService" where
  "processJob_catch now jid e s =
     processJob_finally now jid
       (s\<lparr>rqueue := update jid (\<lambda>j. j\<lparr>status := failed, error := Some e, completedAt := Some now\<rparr>) (rqueue s)\<rparr>)"

text \<open>The parameters \<^verbatim>\<open>processJob\<close> computes from the job for the rendering engine.\<close>

record RenderParams =
  rp_width :: int
  rp_height :: int
  rp_fps :: int
  rp_durationInFrames :: int
  rp_crf :: int
  rp_codec :: string
  rp_outputLocation :: string

definition renderParams :: "RenderJob \<Rightarrow> RenderParams" where
  "renderParams job =
     (let fmt = (case format job of None \<Rightarrow> landscape | Some f \<Rightarrow> f);
          dims = DIMENSIONS fmt;
          fps' = num_or_d (fps job) 30;
          durationInFrames = num_or_d (duration job) 10 * fps';
          qualityPreset = QUALITY_PRESETS (case quality job of None \<Rightarrow> standard | Some q \<Rightarrow> q)
      in \<lparr>rp_width = width dims, rp_height = height dims, rp_fps = fps',
          rp_durationInFrames = durationInFrames, rp_crf = crf qualityPreset,
          rp_codec = codec qualityPreset, rp_outputLocation = outputPath job\<rparr>)"

text \<open>
  \<^verbatim>\<open>await this.getBundle()\<close> is resumed. A call suspended inside \<^verbatim>\<open>getBundle\<close> first
  finishes \<^verbatim>\<open>getBundle\<close>; a memoized promise hands over its result; with the location in
  hand \<^verbatim>\<open>processJob\<close> goes on to \<^verbatim>\<open>rendering\<close> and calls \<^verbatim>\<open>selectComposition\<close>; an error
  enters the \<^verbatim>\<open>catch\<close> block.
\<close>

fun processJob_bundle :: "nat \<Rightarrow> string \<Rightarrow> awaited \<Rightarrow> RenderService \<Rightarrow> RenderService option" where
  "processJob_bundle now jid (Building p) s =
     (case getBundle_resume p s of
        None \<Rightarrow> None
      | Some (Inr l, s1) \<Rightarrow> Some (s1\<lparr>tasks := (tasks s1)(jid \<mapsto> AwaitBundle (Value l))\<rparr>)
      | Some (Inl e, s1) \<Rightarrow> Some (s1\<lparr>tasks := (tasks s1)(jid \<mapsto> AwaitBundle (Thrown e))\<rparr>))"
| "processJob_bundle now jid (OnPromise p) s =
     (case promiseResult s p of
        None \<Rightarrow> None
      | Some (Inr l) \<Rightarrow> Some (s\<lparr>tasks := (tasks s)(jid \<mapsto> AwaitBundle (Value l))\<rparr>)
      | Some (Inl e) \<Rightarrow> Some (s\<lparr>tasks := (tasks s)(jid \<mapsto> AwaitBundle (Thrown e))\<rparr>))"
| "processJob_bundle now jid (Value l) s =
     Some (s\<lparr>rqueue := update jid (\<lambda>j. j\<lparr>status := rendering\<rparr>) (rqueue s),
             tasks := (tasks s)(jid \<mapsto> AwaitSelect l)\<rparr>)"
| "processJob_bundle now jid (Thrown e) s = Some (processJob_catch now jid e s)"

text \<open>\<^verbatim>\<open>selectComposition\<close> settles: \<open>None\<close> for success, \<open>Some e\<close> for the error thrown.\<close>

definition processJob_selected :: "nat \<Rightarrow> string \<Rightarrow> string \<Rightarrow> string option \<Rightarrow> RenderService \<Rightarrow> RenderService" where
  "processJob_selected now jid l r s =
     (case r of
        None \<Rightarrow> s\<lparr>tasks := (tasks s)(jid \<mapsto> AwaitRender l)\<rparr>
      | Some e \<Rightarrow> processJob_catch now jid e s)"

text \<open>\<^verbatim>\<open>Math.round\<close> and the \<^verbatim>\<open>onProgress\<close> callback passed to \<^verbatim>\<open>renderMedia\<close>.\<close>

definition Math_round :: "real \<Rightarrow> int" where
  "Math_round x = \<lfloor>x + 1 / 2\<rfloor>"

definition onProgress :: "string \<Rightarrow> real \<Rightarrow> int \<Rightarrow> RenderService \<Rightarrow> RenderService" where
  "onProgress jid prog encodedFrames s =
     s\<lparr>rqueue := update jid
          (\<lambda>j. j\<lparr>status := (if encodedFrames > 0 then encoding else rendering),
                 progress := Math_round (prog * 100)\<rparr>) (rqueue s)\<rparr>"

text \<open>\<^verbatim>\<open>renderMedia\<close> settles; on success \<^verbatim>\<open>renderStill\<close> is called.\<close>

definition processJob_rendered :: "nat \<Rightarrow> string \<Rightarrow> string \<Rightarrow> string option \<Rightarrow> RenderService \<Rightarrow> RenderService" where
  "processJob_rendered now jid l r s =
     (case r of
        None \<Rightarrow> s\<lparr>tasks := (tasks s)(jid \<mapsto> AwaitStill l)\<rparr>
      | Some e \<Rightarrow> processJob_catch now jid e s)"

text \<open>\<^verbatim>\<open>job.outputPath.replace(/\.mp4$/, '_thumb.jpg')\<close>.\<close>

definition thumbnailPath_of :: "string \<Rightarrow> string" where
  "thumbnailPath_of p =
     (if suffix ''.mp4'' p then take (length p - 4) p @ ''_thumb.jpg'' else p)"

text \<open>
  \<^verbatim>\<open>renderStill\<close> settles, with \<open>r\<close> the error it threw, if any: the inner \<^verbatim>\<open>catch\<close> only
  logs it, so \<open>r\<close> is not used. \<open>ex\<close> is the value of \<^verbatim>\<open>fs.existsSync(thumbnailPath)\<close>.
  Then the job is marked complete and the \<^verbatim>\<open>finally\<close> block runs.
\<close>

definition processJob_still :: "nat \<Rightarrow> string \<Rightarrow> string option \<Rightarrow> bool \<Rightarrow> RenderService \<Rightarrow> RenderService" where
  "processJob_still now jid r ex s =
     processJob_finally now jid
       (s\<lparr>rqueue := update jid
            (\<lambda>j. j\<lparr>status := completed, progress := 100,
                   thumbnailPath := (if ex then Some (thumbnailPath_of (outputPath j)) else None),
                   completedAt := Some now\<rparr>) (rqueue s)\<rparr>)"

subsection \<open>Runs of the service\<close>

text \<open>
  What can happen to a service, one uninterrupted piece of code at a time: the calls of its
  public methods, the bundler settling a build, and the resumption of a suspended
  \<^verbatim>\<open>processJob\<close> by the operation it awaits (with the engine calling \<^verbatim>\<open>onProgress\<close> while
  \<^verbatim>\<open>renderMedia\<close> runs). \<open>step\<close> is \<open>None\<close> when the event cannot happen in the state.
  \<^verbatim>\<open>uuidv4()\<close> is taken to return a non-empty identifier not in use. Suspended calls may
  be resumed in any order, which covers every order the event loop can choose.
\<close>

datatype event =
    EvCreateJob RenderJobInput string string
  | EvSubscribe string ProgressCallback
  | EvUnsubscribe string ProgressCallback
  | EvInvalidateBundle
  | EvBuildSettled nat "string + string"
  | EvBundleReturned string
  | EvSelected string "string option"
  | EvProgress string real int
  | EvRendered string "string option"
  | EvStill string "string option" bool

fun step :: "nat \<Rightarrow> event \<Rightarrow> RenderService \<Rightarrow> RenderService option" where
  "step now (EvCreateJob input u1 u2) s =
     (if u2 \<noteq> [] \<and> jobs (rqueue s) u2 = None then Some (snd (createJob now u1 u2 input s)) else None)"
| "step now (EvSubscribe jid cb) s = Some (s\<lparr>rqueue := subscribe jid cb (rqueue s)\<rparr>)"
| "step now (EvUnsubscribe jid cb) s = Some (s\<lparr>rqueue := unsubscribe jid cb (rqueue s)\<rparr>)"
| "step now EvInvalidateBundle s = Some (invalidateBundle s)"
| "step now (EvBuildSettled p r) s = settle p r s"
| "step now (EvBundleReturned jid) s =
     (case tasks s jid of Some (AwaitBundle a) \<Rightarrow> processJob_bundle now jid a s | _ \<Rightarrow> None)"
| "step now (EvSelected jid r) s =
     (case tasks s jid of Some (AwaitSelect l) \<Rightarrow> Some (processJob_selected now jid l r s) | _ \<Rightarrow> None)"
| "step now (EvProgress jid prog ef) s =
     (case tasks s jid of Some (AwaitRender l) \<Rightarrow> Some (onProgress jid prog ef s) | _ \<Rightarrow> None)"
| "step now (EvRendered jid r) s =
     (case tasks s jid of Some (AwaitRender l) \<Rightarrow> Some (processJob_rendered now jid l r s) | _ \<Rightarrow> None)"
| "step now (EvStill jid r ex) s =
     (case tasks s jid of Some (AwaitStill l) \<Rightarrow> Some (processJob_still now jid r ex s) | _ \<Rightarrow> None)"

fun run :: "(nat \<times> event) list \<Rightarrow> RenderService \<Rightarrow> RenderService option" where
  "run [] s = Some s"
| "run ((now, ev) # tr) s = (case step now ev s of None \<Rightarrow> None | Some s' \<Rightarrow> run tr s')"

section \<open>Sequences of calls and the properties of states\<close>



text \<open>\<open>n\<close> calls of \<^verbatim>\<open>dequeue()\<close> in a row with their results, and a list of jobs added in order.\<close>

fun dequeue_n :: "nat \<Rightarrow> RenderQueue \<Rightarrow> RenderJob option list \<times> RenderQueue" where
  "dequeue_n 0 q = ([], q)"
| "dequeue_n (Suc n) q =
     (let (j, q1) = dequeue q; (js, q2) = dequeue_n n q1 in (j # js, q2))"

definition add_all :: "RenderJob list \<Rightarrow> RenderQueue \<Rightarrow> RenderQueue" where
  "add_all js q = foldl (\<lambda>q j. add j q) q js"

text \<open>
  The processing set holds each identifier once and no more than \<open>m\<close> of them, \<open>m\<close> being
  the cap of the queue.
\<close>

definition capOK :: "int \<Rightarrow> RenderService \<Rightarrow> bool" where
  "capOK m s = (maxConcurrent (rqueue s) = m \<and> distinct (processing (rqueue s))
                \<and> int (length (processing (rqueue s))) \<le> m)"

text \<open>
  The bookkeeping of a service agrees: the pending identifiers are all different; a job is
  stored under its own identifier; a pending job has no \<^verbatim>\<open>processJob\<close> running and no
  error; a job with a \<^verbatim>\<open>processJob\<close> running exists and has no error.
\<close>

definition consistent :: "RenderService \<Rightarrow> bool" where
  "consistent s = (distinct (queue (rqueue s))
     \<and> (\<forall>k j. jobs (rqueue s) k = Some j \<longrightarrow> job_id j = k)
     \<and> (\<forall>k \<in> set (queue (rqueue s)). tasks s k = None \<and> (\<exists>j. jobs (rqueue s) k = Some j \<and> error j = None))
     \<and> (\<forall>k ph. tasks s k = Some ph \<longrightarrow> (\<exists>j. jobs (rqueue s) k = Some j \<and> error j = None)))"

text \<open>Every completed job has progress 100.\<close>

definition progOK :: "RenderService \<Rightarrow> bool" where
  "progOK s = (\<forall>k j. jobs (rqueue s) k = Some j \<longrightarrow> status j = completed \<longrightarrow> progress j = 100)"

text \<open>The job \<open>jid\<close> after the events \<open>tr\<close> on a service constructed with \<open>c\<close>.\<close>

definition jobAfter :: "(nat \<times> event) list \<Rightarrow> PartialConfig \<Rightarrow> string \<Rightarrow> RenderJob option" where
  "jobAfter tr c jid = (case run tr (newService c) of None \<Rightarrow> None | Some s \<Rightarrow> jobs (rqueue s) jid)"


subsection \<open>Concrete inputs\<close>

definition input_EventPromo :: RenderJobInput where
  "input_EventPromo =
     \<lparr>in_compositionId = ''EventPromo'', in_inputProps = [], in_format = Some landscape,
      in_duration = None, in_fps = None, in_quality = None, in_outputPath = None,
      in_outputFilename = None\<rparr>"

text \<open>Three jobs as \<^verbatim>\<open>createJob\<close> constructs them, with identifiers of their own.\<close>

definition job_A :: RenderJob where
  "job_A = mkJob DEFAULT_CONFIG Inherited 0 ''0a0a0a0a-1'' ''job-A'' input_EventPromo"

definition job_B :: RenderJob where
  "job_B = mkJob DEFAULT_CONFIG Inherited 1 ''0b0b0b0b-2'' ''job-B'' input_EventPromo"

definition job_C :: RenderJob where
  "job_C = mkJob DEFAULT_CONFIG Inherited 2 ''0c0c0c0c-3'' ''job-C'' input_EventPromo"

definition config_default :: PartialConfig where
  "config_default = \<lparr>cfg_outputDir = None, cfg_entryPoint = None, cfg_concurrency = None\<rparr>"

definition config_negative :: PartialConfig where
  "config_negative =
     \<lparr>cfg_outputDir = None, cfg_entryPoint = None, cfg_concurrency = Some (Some (- 1))\<rparr>"

definition config_two :: PartialConfig where
  "config_two = \<lparr>cfg_outputDir = None, cfg_entryPoint = None, cfg_concurrency = Some (Some 2)\<rparr>"

definition config_one :: PartialConfig where
  "config_one = \<lparr>cfg_outputDir = None, cfg_entryPoint = None, cfg_concurrency = Some (Some 1)\<rparr>"

text \<open>Three jobs are created on a fresh service.\<close>

definition trace_three_jobs :: "(nat \<times> event) list" where
  "trace_three_jobs =
     [(0, EvCreateJob input_EventPromo ''0a0a0a0a-1'' ''job-1''),
      (1, EvCreateJob input_EventPromo ''0b0b0b0b-2'' ''job-2''),
      (2, EvCreateJob input_EventPromo ''0c0c0c0c-3'' ''job-3'')]"

text \<open>Three jobs are created, and the first two are carried through to completion.\<close>

definition trace_fifo :: "(nat \<times> event) list" where
  "trace_fifo =
     trace_three_jobs @
     [(3, EvBuildSettled 0 (Inr ''/tmp/bundle'')),
      (4, EvBundleReturned ''job-1''),
      (5, EvBundleReturned ''job-1''),
      (6, EvSelected ''job-1'' None),
      (7, EvRendered ''job-1'' None),
      (8, EvStill ''job-1'' None True),
      (9, EvBundleReturned ''job-2''),
      (10, EvSelected ''job-2'' None),
      (11, EvRendered ''job-2'' None),
      (12, EvStill ''job-2'' None True)]"

text \<open>
  One job: the bundle is built, \<^verbatim>\<open>getBundle\<close> and then \<^verbatim>\<open>processJob\<close> are resumed, the
  composition is selected, and the engine reports progress 1 with 300 frames encoded.
\<close>

definition trace_encoding :: "(nat \<times> event) list" where
  "trace_encoding =
     [(0, EvCreateJob input_EventPromo ''0a0a0a0a-1'' ''job-1''),
      (1, EvBuildSettled 0 (Inr ''/tmp/bundle'')),
      (2, EvBundleReturned ''job-1''),
      (3, EvBundleReturned ''job-1''),
      (4, EvSelected ''job-1'' None),
      (5, EvProgress ''job-1'' 1 300)]"

text \<open>The same job, rendered and with its thumbnail written.\<close>

definition trace_completed :: "(nat \<times> event) list" where
  "trace_completed =
     trace_encoding @ [(6, EvRendered ''job-1'' None), (7, EvStill ''job-1'' None True)]"



definition input_zero :: RenderJobInput where
  "input_zero = input_EventPromo\<lparr>in_duration := Some 0, in_fps := Some 0\<rparr>"



text \<open>One job, rendered, with \<^verbatim>\<open>renderStill\<close> in flight.\<close>

definition trace_rendered :: "(nat \<times> event) list" where
  "trace_rendered = trace_encoding @ [(6, EvRendered ''job-1'' None)]"

section \<open>Lemmas\<close>

lemma update_fields [simp]:
  "queue (update jid upd q) = queue q"
  "processing (update jid upd q) = processing q"
  "maxConcurrent (update jid upd q) = maxConcurrent q"
  "listeners (update jid upd q) = listeners q"
  by (simp_all add: update_def notifyProgress_def Let_def split: option.splits)

lemma jobs_update:
  "jobs (update jid upd q) k = (if k = jid then map_option upd (jobs q jid) else jobs q k)"
  by (simp add: update_def notifyProgress_def Let_def split: option.splits)

lemma getBundle_fields [simp]:
  "rqueue (snd (getBundle s)) = rqueue s"
  "tasks (snd (getBundle s)) = tasks s"
  "config (snd (getBundle s)) = config s"
  "isProcessing (snd (getBundle s)) = isProcessing s"
  by (simp_all add: getBundle_def split: option.splits)

lemma processJob_start_fields [simp]:
  "rqueue (processJob_start now job s)
     = update (job_id job) (\<lambda>j. j\<lparr>status := bundling, startedAt := Some now\<rparr>) (rqueue s)"
  "tasks (processJob_start now job s) k
     = (if k = job_id job then Some (AwaitBundle (fst (getBundle s))) else tasks s k)"
  "config (processJob_start now job s) = config s"
  "isProcessing (processJob_start now job s) = isProcessing s"
  by (simp_all add: processJob_start_def getBundle_def Let_def split: option.splits prod.splits)

lemma dequeue_cases:
  "canProcess q \<Longrightarrow>
   \<exists>jid rest. queue q = jid # rest \<and>
     (if jid = [] then dequeue q = (None, q\<lparr>queue := rest\<rparr>)
      else dequeue q = (jobs q jid, q\<lparr>queue := rest, processing := Set_add jid (processing q)\<rparr>))"
  by (cases "queue q") (auto simp: canProcess_def dequeue_def)

lemma processQueue_loop_inv:
  assumes "P s"
    and "\<And>s job q. P s \<Longrightarrow> canProcess (rqueue s) \<Longrightarrow> dequeue (rqueue s) = (Some job, q)
            \<Longrightarrow> P (processJob_start now job (s\<lparr>rqueue := q\<rparr>))"
    and "\<And>s q. P s \<Longrightarrow> canProcess (rqueue s) \<Longrightarrow> dequeue (rqueue s) = (None, q)
            \<Longrightarrow> P (s\<lparr>rqueue := q\<rparr>)"
  shows "P (processQueue_loop now s)"
proof -
  have "n = now \<Longrightarrow> P s \<Longrightarrow> P (processQueue_loop n s)" for n
  proof (induction n s rule: processQueue_loop.induct)
    case (1 n s)
    show ?case
    proof (cases "canProcess (rqueue s)")
      case False
      then show ?thesis using "1.prems" by (simp add: processQueue_loop.simps)
    next
      case True
      obtain r q where d: "dequeue (rqueue s) = (r, q)" by (cases "dequeue (rqueue s)")
      show ?thesis
      proof (cases r)
        case None
        then show ?thesis
          using True d assms(3)[OF "1.prems"(2) True] by (subst processQueue_loop.simps) simp
      next
        case (Some job)
        have "P (processJob_start n job (s\<lparr>rqueue := q\<rparr>))"
          using assms(2)[OF "1.prems"(2) True] d Some "1.prems"(1) by simp
        from "1.IH"[OF True d[symmetric] Some "1.prems"(1) this]
        show ?thesis using True d Some by (subst processQueue_loop.simps) simp
      qed
    qed
  qed
  then show ?thesis using assms(1) by simp
qed

lemma processQueue_inv:
  assumes "P s"
    and "\<And>s job q. P s \<Longrightarrow> canProcess (rqueue s) \<Longrightarrow> dequeue (rqueue s) = (Some job, q)
            \<Longrightarrow> P (processJob_start now job (s\<lparr>rqueue := q\<rparr>))"
    and "\<And>s q. P s \<Longrightarrow> canProcess (rqueue s) \<Longrightarrow> dequeue (rqueue s) = (None, q)
            \<Longrightarrow> P (s\<lparr>rqueue := q\<rparr>)"
    and "\<And>s b. P s \<Longrightarrow> P (s\<lparr>isProcessing := b\<rparr>)"
  shows "P (processQueue now s)"
proof (cases "isProcessing s")
  case True
  then show ?thesis using assms(1) by (simp add: processQueue_def)
next
  case False
  have "P (processQueue_loop now (s\<lparr>isProcessing := True\<rparr>))"
    by (rule processQueue_loop_inv[where P = P, OF assms(4)[OF assms(1)] assms(2) assms(3)])
  then show ?thesis using False by (simp add: processQueue_def assms(4))
qed


lemma run_inv:
  assumes "\<And>now ev s s'. P s \<Longrightarrow> step now ev s = Some s' \<Longrightarrow> P s'"
  shows "P s \<Longrightarrow> run tr s = Some s' \<Longrightarrow> P s'"
proof (induction tr arbitrary: s)
  case Nil
  then show ?case by simp
next
  case (Cons a tr)
  obtain now ev where a: "a = (now, ev)" by (cases a)
  from Cons.prems(2) obtain s1 where s1: "step now ev s = Some s1" "run tr s1 = Some s'"
    by (auto simp: a split: option.splits)
  from assms[OF Cons.prems(1) s1(1)] have "P s1" .
  from Cons.IH[OF this s1(2)] show ?case .
qed

lemma length_Set_add: "length (Set_add x xs) \<le> Suc (length xs)"
  by (simp add: Set_add_def)

lemma distinct_Set_add: "distinct xs \<Longrightarrow> distinct (Set_add x xs)"
  by (simp add: Set_add_def)

lemma distinct_Set_delete: "distinct xs \<Longrightarrow> distinct (Set_delete x xs)"
  by (simp add: Set_delete_def)

lemma length_Set_delete: "length (Set_delete x xs) \<le> length xs"
  by (simp add: Set_delete_def)

lemma capOK_fields [simp]:
  "capOK m (s\<lparr>tasks := t\<rparr>) = capOK m s"
  "capOK m (s\<lparr>isProcessing := b\<rparr>) = capOK m s"
  "capOK m (s\<lparr>bundleLocation := l\<rparr>) = capOK m s"
  "capOK m (s\<lparr>bundlePromise := p\<rparr>) = capOK m s"
  "capOK m (s\<lparr>builds := bs\<rparr>) = capOK m s"
  "capOK m (s\<lparr>rqueue := update jid upd (rqueue s)\<rparr>) = capOK m s"
  "capOK m (s\<lparr>rqueue := subscribe jid cb (rqueue s)\<rparr>) = capOK m s"
  "capOK m (s\<lparr>rqueue := unsubscribe jid cb (rqueue s)\<rparr>) = capOK m s"
  "capOK m (s\<lparr>rqueue := add job (rqueue s)\<rparr>) = capOK m s"
  by (simp_all add: capOK_def subscribe_def unsubscribe_def add_def split: option.splits)

lemma processQueue_capOK: "capOK m s \<Longrightarrow> capOK m (processQueue now s)"
proof (rule processQueue_inv[where P = "capOK m"])
  fix s job q
  assume "capOK m s" "canProcess (rqueue s)" "dequeue (rqueue s) = (Some job, q)"
  then show "capOK m (processJob_start now job (s\<lparr>rqueue := q\<rparr>))"
    using length_Set_add[of "hd (queue (rqueue s))" "processing (rqueue s)"]
    by (auto simp: capOK_def canProcess_def dequeue_def distinct_Set_add split: list.splits if_splits)
next
  fix s q
  assume "capOK m s" "canProcess (rqueue s)" "dequeue (rqueue s) = (None, q)"
  then show "capOK m (s\<lparr>rqueue := q\<rparr>)"
    using length_Set_add[of "hd (queue (rqueue s))" "processing (rqueue s)"]
    by (auto simp: capOK_def canProcess_def dequeue_def distinct_Set_add split: list.splits if_splits)
qed (simp_all add: capOK_def)

lemma processJob_finally_capOK: "capOK m s \<Longrightarrow> capOK m (processJob_finally now jid s)"
  unfolding processJob_finally_def
  by (rule processQueue_capOK)
     (use length_Set_delete[of jid "processing (rqueue s)"] in \<open>simp add: capOK_def complete_job_def distinct_Set_delete\<close>)

lemma processJob_catch_capOK: "capOK m s \<Longrightarrow> capOK m (processJob_catch now jid e s)"
  unfolding processJob_catch_def
  by (rule processJob_finally_capOK) simp

lemma createJob_capOK: "capOK m s \<Longrightarrow> capOK m (snd (createJob now u1 u2 input s))"
  unfolding createJob_def
  by (auto simp: Let_def split: option.splits intro!: processQueue_capOK)

lemma step_capOK: "capOK m s \<Longrightarrow> step now ev s = Some s' \<Longrightarrow> capOK m s'"
proof (cases ev)
  case (EvCreateJob input u1 u2)
  assume "capOK m s" "step now ev s = Some s'"
  then show ?thesis using createJob_capOK[of m s now u1 u2 input]
    by (auto simp: EvCreateJob split: if_splits)
next
  case (EvBundleReturned jid)
  assume a: "capOK m s" "step now ev s = Some s'"
  then obtain aw where t: "tasks s jid = Some (AwaitBundle aw)" and b: "processJob_bundle now jid aw s = Some s'"
    by (auto simp: EvBundleReturned split: option.splits phase.splits)
  show ?thesis
  proof (cases aw)
    case (Thrown e)
    then show ?thesis using a(1) b processJob_catch_capOK[of m s now jid e] by auto
  qed (use a(1) b in \<open>auto simp: capOK_def getBundle_resume_def split: option.splits sum.splits\<close>)
next
  case (EvSelected jid r)
  assume a: "capOK m s" "step now ev s = Some s'"
  then show ?thesis using processJob_catch_capOK[of m s now jid]
    by (auto simp: EvSelected processJob_selected_def split: option.splits phase.splits)
next
  case (EvRendered jid r)
  assume a: "capOK m s" "step now ev s = Some s'"
  then show ?thesis using processJob_catch_capOK[of m s now jid]
    by (auto simp: EvRendered processJob_rendered_def split: option.splits phase.splits)
next
  case (EvStill jid r ex)
  assume a: "capOK m s" "step now ev s = Some s'"
  then have s': "s' = processJob_still now jid r ex s"
    by (auto simp: EvStill split: option.splits phase.splits)
  have "capOK m (s\<lparr>rqueue := update jid upd (rqueue s)\<rparr>)" for upd
    using a(1) by (simp add: capOK_def)
  then show ?thesis unfolding s' processJob_still_def
    by (rule processJob_finally_capOK)
qed (auto simp: capOK_def subscribe_def unsubscribe_def invalidateBundle_def settle_def onProgress_def
       split: option.splits phase.splits if_splits)


lemma jobs_dequeue: "jobs (snd (dequeue q)) = jobs q"
  by (simp add: dequeue_def split: list.splits)

lemma progOK_update:
  "progOK s \<Longrightarrow> (\<And>j. status (upd j) = completed \<Longrightarrow> progress (upd j) = 100) \<Longrightarrow>
   progOK (s\<lparr>rqueue := update jid upd (rqueue s)\<rparr>)"
  by (auto simp: progOK_def jobs_update)

lemma processQueue_progOK: "progOK s \<Longrightarrow> progOK (processQueue now s)"
proof (rule processQueue_inv[where P = progOK])
  fix s job q
  assume a: "progOK s" "canProcess (rqueue s)" "dequeue (rqueue s) = (Some job, q)"
  have "jobs q = jobs (rqueue s)" using jobs_dequeue[of "rqueue s"] a(3) by simp
  then show "progOK (processJob_start now job (s\<lparr>rqueue := q\<rparr>))"
    using a(1) by (auto simp: progOK_def jobs_update)
next
  fix s q
  assume a: "progOK s" "canProcess (rqueue s)" "dequeue (rqueue s) = (None, q)"
  have "jobs q = jobs (rqueue s)" using jobs_dequeue[of "rqueue s"] a(3) by simp
  then show "progOK (s\<lparr>rqueue := q\<rparr>)" using a(1) by (simp add: progOK_def)
qed (simp_all add: progOK_def)

lemma processJob_finally_progOK: "progOK s \<Longrightarrow> progOK (processJob_finally now jid s)"
  unfolding processJob_finally_def
  by (rule processQueue_progOK) (simp add: progOK_def complete_job_def)

lemma processJob_catch_progOK: "progOK s \<Longrightarrow> progOK (processJob_catch now jid e s)"
  unfolding processJob_catch_def
  by (rule processJob_finally_progOK, rule progOK_update) simp_all

lemma createJob_progOK: "progOK s \<Longrightarrow> progOK (snd (createJob now u1 u2 input s))"
proof (cases "COMPOSITIONS_get (in_compositionId input)")
  case None
  then show "progOK s \<Longrightarrow> ?thesis" by (simp add: createJob_def)
next
  case (Some c)
  assume "progOK s"
  then have "progOK (s\<lparr>rqueue := add (mkJob (config s) c now u1 u2 input) (rqueue s)\<rparr>)"
    by (auto simp: progOK_def add_def mkJob_def Let_def)
  from processQueue_progOK[OF this] show ?thesis
    by (simp add: createJob_def Some Let_def)
qed

lemma step_progOK: "progOK s \<Longrightarrow> step now ev s = Some s' \<Longrightarrow> progOK s'"
proof (cases ev)
  case (EvCreateJob input u1 u2)
  assume "progOK s" "step now ev s = Some s'"
  then show ?thesis using createJob_progOK[of s now u1 u2 input]
    by (auto simp: EvCreateJob split: if_splits)
next
  case (EvBundleReturned jid)
  assume a: "progOK s" "step now ev s = Some s'"
  then obtain aw where t: "tasks s jid = Some (AwaitBundle aw)" and b: "processJob_bundle now jid aw s = Some s'"
    by (auto simp: EvBundleReturned split: option.splits phase.splits)
  show ?thesis
  proof (cases aw)
    case (Thrown e)
    then show ?thesis using a(1) b processJob_catch_progOK[of s now jid e] by auto
  next
    case (Value l)
    then show ?thesis using b progOK_update[OF a(1), of "\<lambda>j. j\<lparr>status := rendering\<rparr>" jid]
      by (auto simp: progOK_def)
  qed (use a(1) b in \<open>auto simp: progOK_def getBundle_resume_def split: option.splits sum.splits\<close>)
next
  case (EvSelected jid r)
  assume a: "progOK s" "step now ev s = Some s'"
  then show ?thesis using processJob_catch_progOK[of s now jid]
    by (auto simp: EvSelected processJob_selected_def progOK_def[of "s\<lparr>tasks := _\<rparr>"] progOK_def[of s]
        split: option.splits phase.splits)
next
  case (EvRendered jid r)
  assume a: "progOK s" "step now ev s = Some s'"
  then show ?thesis using processJob_catch_progOK[of s now jid]
    by (auto simp: EvRendered processJob_rendered_def progOK_def[of "s\<lparr>tasks := _\<rparr>"] progOK_def[of s]
        split: option.splits phase.splits)
next
  case (EvProgress jid prog ef)
  assume a: "progOK s" "step now ev s = Some s'"
  then have s': "s' = onProgress jid prog ef s"
    by (auto simp: EvProgress split: option.splits phase.splits)
  show ?thesis unfolding s' onProgress_def
    by (rule progOK_update[OF a(1)]) (simp split: if_splits)
next
  case (EvStill jid r ex)
  assume a: "progOK s" "step now ev s = Some s'"
  then have s': "s' = processJob_still now jid r ex s"
    by (auto simp: EvStill split: option.splits phase.splits)
  show ?thesis unfolding s' processJob_still_def
    by (rule processJob_finally_progOK, rule progOK_update[OF a(1)]) simp
qed (auto simp: progOK_def subscribe_def unsubscribe_def invalidateBundle_def settle_def
       split: option.splits phase.splits if_splits)







lemma queue_add_all: "queue (add_all js q) = queue q @ map job_id js"
  unfolding add_all_def by (induction js arbitrary: q) (auto simp: add_def)

lemma processing_add_all: "processing (add_all js q) = processing q"
  unfolding add_all_def by (induction js arbitrary: q) (auto simp: add_def)

lemma jobs_add_all:
  "distinct (map job_id js) \<Longrightarrow> j \<in> set js \<Longrightarrow> jobs (add_all js q) (job_id j) = Some j"
  unfolding add_all_def
proof (induction js arbitrary: q rule: rev_induct)
  case Nil
  then show ?case by simp
next
  case (snoc x xs)
  show ?case
  proof (cases "j = x")
    case True
    then show ?thesis by (simp add: add_def)
  next
    case False
    then have in_xs: "j \<in> set xs" using snoc.prems by simp
    have dist: "distinct (map job_id xs)" and nx: "job_id x \<notin> job_id ` set xs"
      using snoc.prems by simp_all
    have "job_id j \<noteq> job_id x" using in_xs nx by (metis image_eqI)
    then show ?thesis using snoc.IH[OF dist in_xs, of q] by (simp add: add_def)
  qed
qed

lemma dequeue_n_fifo:
  "queue q = map job_id js \<Longrightarrow> [] \<notin> set (map job_id js) \<Longrightarrow>
   \<forall>j \<in> set js. jobs q (job_id j) = Some j \<Longrightarrow>
   fst (dequeue_n (length js) q) = map Some js
   \<and> queue (snd (dequeue_n (length js) q)) = []
   \<and> set (processing (snd (dequeue_n (length js) q))) = set (processing q) \<union> set (map job_id js)
   \<and> jobs (snd (dequeue_n (length js) q)) = jobs q"
proof (induction js arbitrary: q)
  case Nil
  then show ?case by simp
next
  case (Cons j js)
  let ?q1 = "q\<lparr>queue := map job_id js, processing := Set_add (job_id j) (processing q)\<rparr>"
  have ne: "job_id j \<noteq> []" using Cons.prems(2) by auto
  have d: "dequeue q = (Some j, ?q1)"
    using Cons.prems ne by (simp add: dequeue_def)
  have "queue ?q1 = map job_id js" "[] \<notin> set (map job_id js)"
    "\<forall>j \<in> set js. jobs ?q1 (job_id j) = Some j"
    using Cons.prems by auto
  from Cons.IH[OF this] show ?case
    by (auto simp: d Set_add_def split: prod.splits)
qed

lemma capOK_newService:
  "0 \<le> maxConcurrent (rqueue (newService c)) \<Longrightarrow>
   capOK (maxConcurrent (rqueue (newService c))) (newService c)"
  by (simp add: capOK_def newService_def newQueue_def Let_def)

lemma progOK_newService: "progOK (newService c)"
  by (simp add: progOK_def newService_def newQueue_def Let_def)

lemma processQueue_jobs:
  "jobs (rqueue (processQueue now s)) k = jobs (rqueue s) k
   \<or> jobs (rqueue (processQueue now s)) k
       = map_option (\<lambda>j. j\<lparr>status := bundling, startedAt := Some now\<rparr>) (jobs (rqueue s) k)"
  (is "?P (processQueue now s)")
proof (rule processQueue_inv[where P = ?P])
  show "?P s" by simp
next
  fix s' job q
  assume a: "?P s'" "canProcess (rqueue s')" "dequeue (rqueue s') = (Some job, q)"
  have "jobs q = jobs (rqueue s')" using jobs_dequeue[of "rqueue s'"] a(3) by simp
  then show "?P (processJob_start now job (s'\<lparr>rqueue := q\<rparr>))"
    using a(1) by (auto simp: jobs_update option.map_comp comp_def)
next
  fix s' q
  assume a: "?P s'" "canProcess (rqueue s')" "dequeue (rqueue s') = (None, q)"
  have "jobs q = jobs (rqueue s')" using jobs_dequeue[of "rqueue s'"] a(3) by simp
  then show "?P (s'\<lparr>rqueue := q\<rparr>)" using a(1) by simp
qed simp

lemma createJob_found:
  assumes "COMPOSITIONS_get (in_compositionId input) = Some c"
  shows "\<exists>j s'. createJob now u1 u2 input s = (Inr j, s')
          \<and> (j = mkJob (config s) c now u1 u2 input
             \<or> j = (mkJob (config s) c now u1 u2 input)\<lparr>status := bundling, startedAt := Some now\<rparr>)"
proof -
  let ?job = "mkJob (config s) c now u1 u2 input"
  let ?s1 = "s\<lparr>rqueue := add ?job (rqueue s)\<rparr>"
  have "jobs (rqueue ?s1) (job_id ?job) = Some ?job" by (simp add: add_def)
  with processQueue_jobs[of now ?s1 "job_id ?job"]
  show ?thesis by (auto simp: createJob_def assms Let_def)
qed


lemma COMPOSITIONS_defaultDuration:
  "map_of COMPOSITIONS key = Some c \<Longrightarrow> 0 < defaultDuration c"
  by (auto simp: COMPOSITIONS_def split: if_splits)






lemma consistent_newService: "consistent (newService c)"
  by (simp add: consistent_def newService_def newQueue_def Let_def)

lemma consistent_fields [simp]:
  "consistent (s\<lparr>isProcessing := b\<rparr>) = consistent s"
  "consistent (s\<lparr>bundleLocation := l\<rparr>) = consistent s"
  "consistent (s\<lparr>bundlePromise := p\<rparr>) = consistent s"
  "consistent (s\<lparr>builds := bs\<rparr>) = consistent s"
  "consistent (s\<lparr>rqueue := subscribe jid cb (rqueue s)\<rparr>) = consistent s"
  "consistent (s\<lparr>rqueue := unsubscribe jid cb (rqueue s)\<rparr>) = consistent s"
  by (simp_all add: consistent_def subscribe_def unsubscribe_def split: option.splits)

lemma consistent_update:
  assumes "consistent s" and "\<And>j. job_id (upd j) = job_id j" and "\<And>j. error (upd j) = error j"
  shows "consistent (s\<lparr>rqueue := update jid upd (rqueue s)\<rparr>)"
  using assms unfolding consistent_def by (auto simp: jobs_update)

lemma consistent_retask:
  "consistent s \<Longrightarrow> tasks s jid = Some ph \<Longrightarrow> consistent (s\<lparr>tasks := (tasks s)(jid \<mapsto> ph')\<rparr>)"
  unfolding consistent_def by auto

lemma dequeue_Some:
  assumes "dequeue q = (Some job, q')"
  shows "\<exists>jid rest. queue q = jid # rest \<and> jid \<noteq> [] \<and> jobs q jid = Some job
           \<and> q' = q\<lparr>queue := rest, processing := Set_add jid (processing q)\<rparr>"
  using assms by (cases "queue q") (auto simp: dequeue_def split: if_splits)

lemma dequeue_None:
  assumes "dequeue q = (None, q')" and "queue q \<noteq> []"
  shows "jobs q' = jobs q \<and> listeners q' = listeners q \<and> queue q' = tl (queue q)"
  using assms by (cases "queue q") (auto simp: dequeue_def split: if_splits)

lemma consistent_processJob_start:
  assumes "consistent s" and "dequeue (rqueue s) = (Some job, q)"
  shows "consistent (processJob_start now job (s\<lparr>rqueue := q\<rparr>))"
proof -
  from dequeue_Some[OF assms(2)] obtain jid rest where
    d: "queue (rqueue s) = jid # rest" "jid \<noteq> []" "jobs (rqueue s) jid = Some job"
       "q = (rqueue s)\<lparr>queue := rest, processing := Set_add jid (processing (rqueue s))\<rparr>"
    by blast
  have id: "job_id job = jid" using assms(1) d(3) by (simp add: consistent_def)
  have e: "error job = None" using assms(1) d(1,3) by (auto simp: consistent_def)
  show ?thesis
    using assms(1) d id e unfolding consistent_def
    by (auto simp: jobs_update)
qed

lemma processQueue_consistent: "consistent s \<Longrightarrow> consistent (processQueue now s)"
proof (rule processQueue_inv[where P = consistent])
  fix s job q
  assume "consistent s" "canProcess (rqueue s)" "dequeue (rqueue s) = (Some job, q)"
  then show "consistent (processJob_start now job (s\<lparr>rqueue := q\<rparr>))"
    by (simp add: consistent_processJob_start)
next
  fix s q
  assume a: "consistent s" "canProcess (rqueue s)" "dequeue (rqueue s) = (None, q)"
  then have "queue (rqueue s) \<noteq> []" by (auto simp: canProcess_def)
  from dequeue_None[OF a(3) this] a(1)
  show "consistent (s\<lparr>rqueue := q\<rparr>)"
    unfolding consistent_def by (cases "queue (rqueue s)") (auto simp: distinct_tl)
qed simp_all

lemma consistent_finish:
  assumes "consistent s" and "tasks s jid = Some ph" and "\<And>j. job_id (upd j) = job_id j"
  shows "consistent (processJob_finally now jid (s\<lparr>rqueue := update jid upd (rqueue s)\<rparr>))"
  unfolding processJob_finally_def
proof (rule processQueue_consistent)
  have "jid \<notin> set (queue (rqueue s))" using assms(1,2) by (auto simp: consistent_def)
  then show "consistent (s\<lparr>rqueue := update jid upd (rqueue s)\<rparr>
                 \<lparr>rqueue := complete_job jid (rqueue (s\<lparr>rqueue := update jid upd (rqueue s)\<rparr>)),
                    tasks := (tasks (s\<lparr>rqueue := update jid upd (rqueue s)\<rparr>))(jid := None)\<rparr>)"
    using assms unfolding consistent_def
    by (auto simp: jobs_update complete_job_def)
qed

lemma createJob_consistent:
  assumes "consistent s" and "u2 \<noteq> []" and "jobs (rqueue s) u2 = None"
  shows "consistent (snd (createJob now u1 u2 input s))"
proof (cases "COMPOSITIONS_get (in_compositionId input)")
  case None
  then show ?thesis using assms(1) by (simp add: createJob_def)
next
  case (Some c)
  have "u2 \<notin> set (queue (rqueue s))" "tasks s u2 = None"
    using assms(1,3) by (auto simp: consistent_def)
  then have "consistent (s\<lparr>rqueue := add (mkJob (config s) c now u1 u2 input) (rqueue s)\<rparr>)"
    using assms unfolding consistent_def
    by (auto simp: add_def mkJob_def Let_def)
  from processQueue_consistent[OF this] show ?thesis
    by (simp add: createJob_def Some Let_def)
qed

lemma step_consistent: "consistent s \<Longrightarrow> step now ev s = Some s' \<Longrightarrow> consistent s'"
proof (cases ev)
  case (EvCreateJob input u1 u2)
  assume "consistent s" "step now ev s = Some s'"
  then show ?thesis using createJob_consistent[of s u2 now u1 input]
    by (auto simp: EvCreateJob split: if_splits)
next
  case (EvBundleReturned jid)
  assume a: "consistent s" "step now ev s = Some s'"
  then obtain aw where t: "tasks s jid = Some (AwaitBundle aw)" and b: "processJob_bundle now jid aw s = Some s'"
    by (auto simp: EvBundleReturned split: option.splits phase.splits)
  show ?thesis
  proof (cases aw)
    case (Thrown e)
    then show ?thesis using b consistent_finish[OF a(1) t, of _ now]
      by (auto simp: processJob_catch_def)
  next
    case (Value l)
    have "consistent (s\<lparr>rqueue := update jid (\<lambda>j. j\<lparr>status := rendering\<rparr>) (rqueue s)\<rparr>)"
      by (rule consistent_update[OF a(1)]) simp_all
    moreover have "tasks (s\<lparr>rqueue := update jid (\<lambda>j. j\<lparr>status := rendering\<rparr>) (rqueue s)\<rparr>) jid
                   = Some (AwaitBundle aw)" using t by simp
    ultimately show ?thesis using b Value consistent_retask by fastforce
  next
    case (Building p)
    then show ?thesis using b consistent_retask[OF a(1) t] consistent_retask[of "s\<lparr>bundleLocation := _\<rparr>", simplified, OF a(1)] t
      by (auto simp: getBundle_resume_def split: option.splits sum.splits)
  next
    case (OnPromise p)
    then show ?thesis using b consistent_retask[OF a(1) t]
      by (auto split: option.splits sum.splits)
  qed
next
  case (EvSelected jid r)
  assume a: "consistent s" "step now ev s = Some s'"
  then obtain l where t: "tasks s jid = Some (AwaitSelect l)" and b: "s' = processJob_selected now jid l r s"
    by (auto simp: EvSelected split: option.splits phase.splits)
  show ?thesis using b consistent_finish[OF a(1) t, of _ now] consistent_retask[OF a(1) t]
    by (auto simp: processJob_selected_def processJob_catch_def split: option.splits)
next
  case (EvRendered jid r)
  assume a: "consistent s" "step now ev s = Some s'"
  then obtain l where t: "tasks s jid = Some (AwaitRender l)" and b: "s' = processJob_rendered now jid l r s"
    by (auto simp: EvRendered split: option.splits phase.splits)
  show ?thesis using b consistent_finish[OF a(1) t, of _ now] consistent_retask[OF a(1) t]
    by (auto simp: processJob_rendered_def processJob_catch_def split: option.splits)
next
  case (EvProgress jid prog ef)
  assume a: "consistent s" "step now ev s = Some s'"
  then have s': "s' = onProgress jid prog ef s"
    by (auto simp: EvProgress split: option.splits phase.splits)
  show ?thesis unfolding s' onProgress_def by (rule consistent_update[OF a(1)]) simp_all
next
  case (EvStill jid r ex)
  assume a: "consistent s" "step now ev s = Some s'"
  then obtain l where t: "tasks s jid = Some (AwaitStill l)" and b: "s' = processJob_still now jid r ex s"
    by (auto simp: EvStill split: option.splits phase.splits)
  show ?thesis unfolding b processJob_still_def by (rule consistent_finish[OF a(1) t]) simp
qed (auto simp: invalidateBundle_def settle_def split: if_splits)


lemma processQueue_untouched:
  assumes "consistent s" and "jid \<notin> set (queue (rqueue s))"
  shows "jobs (rqueue (processQueue now s)) jid = jobs (rqueue s) jid
         \<and> tasks (processQueue now s) jid = tasks s jid
         \<and> (jid \<notin> set (processing (rqueue s)) \<longrightarrow> jid \<notin> set (processing (rqueue (processQueue now s))))"
proof -
  let ?P = "\<lambda>s'. consistent s' \<and> jid \<notin> set (queue (rqueue s'))
      \<and> jobs (rqueue s') jid = jobs (rqueue s) jid \<and> tasks s' jid = tasks s jid
      \<and> (jid \<notin> set (processing (rqueue s)) \<longrightarrow> jid \<notin> set (processing (rqueue s')))"
  have "?P (processQueue now s)"
  proof (rule processQueue_inv[where P = ?P])
    show "?P s" using assms by simp
  next
    fix s' job q
    assume a: "?P s'" "canProcess (rqueue s')" "dequeue (rqueue s') = (Some job, q)"
    from dequeue_Some[OF a(3)] obtain k rest where
      d: "queue (rqueue s') = k # rest" "k \<noteq> []" "jobs (rqueue s') k = Some job"
         "q = (rqueue s')\<lparr>queue := rest, processing := Set_add k (processing (rqueue s'))\<rparr>"
      by blast
    have id: "job_id job = k" using a(1) d(3) by (simp add: consistent_def)
    have ne: "k \<noteq> jid" using a(1) d(1) by auto
    have "consistent (processJob_start now job (s'\<lparr>rqueue := q\<rparr>))"
      using a(1,3) by (simp add: consistent_processJob_start)
    then show "?P (processJob_start now job (s'\<lparr>rqueue := q\<rparr>))"
      using a(1) d id ne by (auto simp: jobs_update Set_add_def)
  next
    fix s' q
    assume a: "?P s'" "canProcess (rqueue s')" "dequeue (rqueue s') = (None, q)"
    then obtain k rest where k: "queue (rqueue s') = k # rest"
      by (cases "queue (rqueue s')") (auto simp: canProcess_def)
    have c: "consistent (s'\<lparr>rqueue := q\<rparr>)"
      using a k dequeue_None[OF a(3)] unfolding consistent_def by (auto simp: distinct_tl)
    have "processing q = processing (rqueue s') \<or> processing q = Set_add k (processing (rqueue s'))"
      using a(3) k by (auto simp: dequeue_def split: if_splits)
    moreover have "k \<noteq> jid" using a(1) k by auto
    ultimately have "jid \<notin> set (processing (rqueue s')) \<longrightarrow> jid \<notin> set (processing q)"
      by (auto simp: Set_add_def split: if_splits)
    then show "?P (s'\<lparr>rqueue := q\<rparr>)"
      using a(1) c k dequeue_None[OF a(3)] by auto
  qed simp
  then show ?thesis by simp
qed

section \<open>The claims\<close>




text \<open>
  Claim C2. In every state a service reaches, the processing set holds no more
  identifiers than \<^verbatim>\<open>maxConcurrent\<close>.

  As stated this fails for a service constructed with a negative \<^verbatim>\<open>concurrency\<close>, which
  the constructor accepts (\<^verbatim>\<open>-1 || 2\<close> is \<^verbatim>\<open>-1\<close>): its empty processing set is already
  larger than the cap.
\<close>

theorem cap_negative_counterexample:
  "\<not> int (length (processing (rqueue (newService config_negative))))
       \<le> maxConcurrent (rqueue (newService config_negative))"
  by (simp add: newService_def newQueue_def mergeConfig_def config_negative_def Let_def)

text \<open>
  Claim C2, amended. For a service constructed with a cap that is not negative, in every
  state reached by any sequence of events (calls of \<^verbatim>\<open>createJob\<close>, with the
  \<^verbatim>\<open>processQueue\<close> loop and its guarded \<^verbatim>\<open>dequeue\<close>, and the completions of jobs, each
  followed by \<^verbatim>\<open>complete\<close> and \<^verbatim>\<open>processQueue\<close>), the processing set has at most
  \<^verbatim>\<open>maxConcurrent\<close> members, and \<^verbatim>\<open>maxConcurrent\<close> is the cap the service was built with.
\<close>

theorem processing_within_cap:
  assumes "0 \<le> maxConcurrent (rqueue (newService c))"
    and "run tr (newService c) = Some s"
  shows "int (length (processing (rqueue s))) \<le> maxConcurrent (rqueue s)
         \<and> distinct (processing (rqueue s))
         \<and> maxConcurrent (rqueue s) = maxConcurrent (rqueue (newService c))"
proof -
  have "capOK (maxConcurrent (rqueue (newService c))) s"
    by (rule run_inv[where P = "capOK (maxConcurrent (rqueue (newService c)))", OF step_capOK
          capOK_newService[OF assms(1)] assms(2)])
  then show ?thesis by (simp add: capOK_def)
qed

theorem processing_within_cap_witness:
  "\<exists>s. run trace_three_jobs (newService config_two) = Some s
       \<and> processing (rqueue s) = [''job-1'', ''job-2''] \<and> queue (rqueue s) = [''job-3'']
       \<and> int (length (processing (rqueue s))) \<le> maxConcurrent (rqueue s)
       \<and> maxConcurrent (rqueue s) = 2"
proof -
  have "map_option (\<lambda>s. (processing (rqueue s), queue (rqueue s)))
          (run trace_three_jobs (newService config_two))
        = Some ([''job-1'', ''job-2''], [''job-3''])"
    by code_simp
  then obtain s where s: "run trace_three_jobs (newService config_two) = Some s"
    "processing (rqueue s) = [''job-1'', ''job-2'']" "queue (rqueue s) = [''job-3'']"
    by auto
  have m: "maxConcurrent (rqueue (newService config_two)) = 2"
    by (simp add: newService_def newQueue_def mergeConfig_def config_two_def Let_def)
  then have "0 \<le> maxConcurrent (rqueue (newService config_two))" by simp
  from processing_within_cap[OF this s(1)] s m show ?thesis by simp
qed



text \<open>
  Claim C4. \<^verbatim>\<open>add\<close> appends the job's identifier to the back of the pending list;
  \<^verbatim>\<open>dequeue\<close> removes the oldest pending identifier, puts it into the processing set and
  returns its job; so jobs added in some order to a queue with nothing pending are handed
  out by successive calls of \<^verbatim>\<open>dequeue\<close> in that order. The identifiers are those
  \<^verbatim>\<open>uuidv4()\<close> gives: not empty and all different. (In the run \<open>trace_fifo\<close> of a service
  with cap 1, the jobs created at times 0, 1, 2 start at times 0, 8, 12.)
\<close>

theorem fifo_admission:
  "queue (add job q) = queue q @ [job_id job]
   \<and> jobs (add job q) (job_id job) = Some job
   \<and> (\<forall>jid rest. queue q = jid # rest \<and> jid \<noteq> [] \<longrightarrow>
        fst (dequeue q) = jobs q jid
        \<and> queue (snd (dequeue q)) = rest
        \<and> set (processing (snd (dequeue q))) = insert jid (set (processing q)))
   \<and> (queue q = [] \<and> distinct (map job_id js) \<and> [] \<notin> set (map job_id js) \<longrightarrow>
        fst (dequeue_n (length js) (add_all js q)) = map Some js
        \<and> queue (snd (dequeue_n (length js) (add_all js q))) = []
        \<and> set (processing (snd (dequeue_n (length js) (add_all js q))))
            = set (processing q) \<union> set (map job_id js))"
proof (intro conjI allI impI)
  show "queue (add job q) = queue q @ [job_id job]" by (simp add: add_def)
  show "jobs (add job q) (job_id job) = Some job" by (simp add: add_def)
next
  fix jid rest assume a: "queue q = jid # rest \<and> jid \<noteq> []"
  then show "fst (dequeue q) = jobs q jid" "queue (snd (dequeue q)) = rest"
    "set (processing (snd (dequeue q))) = insert jid (set (processing q))"
    by (auto simp: dequeue_def Set_add_def)
next
  assume a: "queue q = [] \<and> distinct (map job_id js) \<and> [] \<notin> set (map job_id js)"
  have 1: "queue (add_all js q) = map job_id js" using a by (simp add: queue_add_all)
  have 2: "\<forall>j \<in> set js. jobs (add_all js q) (job_id j) = Some j"
    using a by (simp add: jobs_add_all)
  from dequeue_n_fifo[OF 1 _ 2] a
  show "fst (dequeue_n (length js) (add_all js q)) = map Some js"
    "queue (snd (dequeue_n (length js) (add_all js q))) = []"
    "set (processing (snd (dequeue_n (length js) (add_all js q))))
            = set (processing q) \<union> set (map job_id js)"
    by (simp_all add: processing_add_all)
qed

theorem fifo_admission_witness:
  "fst (dequeue_n (length [job_A, job_B, job_C]) (add_all [job_A, job_B, job_C] (newQueue 1)))
     = [Some job_A, Some job_B, Some job_C]
   \<and> fst (dequeue (add job_B (add job_A (newQueue 1)))) = Some job_A
   \<and> queue (snd (dequeue (add job_B (add job_A (newQueue 1))))) = [''job-B'']
   \<and> map_option startedAt (jobAfter trace_fifo config_one ''job-1'') = Some (Some 0)
   \<and> map_option startedAt (jobAfter trace_fifo config_one ''job-2'') = Some (Some 8)
   \<and> map_option startedAt (jobAfter trace_fifo config_one ''job-3'') = Some (Some 12)"
proof -
  have r: "map_option startedAt (jobAfter trace_fifo config_one ''job-1'') = Some (Some 0)"
    "map_option startedAt (jobAfter trace_fifo config_one ''job-2'') = Some (Some 8)"
    "map_option startedAt (jobAfter trace_fifo config_one ''job-3'') = Some (Some 12)"
    by code_simp+
  have ids: "map job_id [job_A, job_B, job_C] = [''job-A'', ''job-B'', ''job-C'']"
    by (simp add: job_A_def job_B_def job_C_def mkJob_def Let_def)
  have q: "queue (add job_B (add job_A (newQueue 1))) = ''job-A'' # [''job-B'']"
    "jobs (add job_B (add job_A (newQueue 1))) ''job-A'' = Some job_A"
    by (simp_all add: add_def newQueue_def job_A_def job_B_def mkJob_def Let_def)
  have e: "queue (newQueue 1) = []" by (simp add: newQueue_def)
  from fifo_admission[of job_A "newQueue 1" "[job_A, job_B, job_C]"] ids e
  have 1: "fst (dequeue_n (length [job_A, job_B, job_C]) (add_all [job_A, job_B, job_C] (newQueue 1)))
             = [Some job_A, Some job_B, Some job_C]"
    by (simp del: dequeue_n.simps length_Cons list.size)
  from fifo_admission[of job_A "add job_B (add job_A (newQueue 1))" "[]"] q
  have 2: "fst (dequeue (add job_B (add job_A (newQueue 1)))) = Some job_A"
     "queue (snd (dequeue (add job_B (add job_A (newQueue 1))))) = [''job-B'']"
    by simp_all
  from 1 2 r show ?thesis by (simp del: dequeue_n.simps length_Cons list.size)
qed

text \<open>
  Claim C5. The progress of a job is 100 if and only if its status is \<^verbatim>\<open>completed\<close>.

  As stated this fails from right to left: while \<^verbatim>\<open>renderMedia\<close> runs, \<^verbatim>\<open>onProgress\<close>
  stores \<^verbatim>\<open>Math.round(progress * 100)\<close>, which is 100 once the engine reports progress 1,
  with the status \<^verbatim>\<open>encoding\<close>.
\<close>

theorem progress_100_while_encoding_counterexample:
  "map_option progress (jobAfter trace_encoding config_default ''job-1'') = Some 100
   \<and> map_option status (jobAfter trace_encoding config_default ''job-1'') = Some encoding"
  by code_simp

text \<open>
  Claim C5, amended. In every state a service reaches, a job whose status is
  \<^verbatim>\<open>completed\<close> has progress 100.
\<close>

theorem completed_has_progress_100:
  assumes "run tr (newService c) = Some s"
    and "jobs (rqueue s) k = Some j"
    and "status j = completed"
  shows "progress j = 100"
proof -
  have "progOK s"
    by (rule run_inv[where P = progOK, OF step_progOK progOK_newService assms(1)])
  then show ?thesis using assms(2,3) by (simp add: progOK_def)
qed

theorem completed_has_progress_100_witness:
  "\<exists>s j. run trace_completed (newService config_default) = Some s
       \<and> jobs (rqueue s) ''job-1'' = Some j \<and> status j = completed \<and> progress j = 100"
proof -
  have "map_option (\<lambda>s. map_option status (jobs (rqueue s) ''job-1''))
          (run trace_completed (newService config_default)) = Some (Some completed)"
    by code_simp
  then obtain s j where s: "run trace_completed (newService config_default) = Some s"
    "jobs (rqueue s) ''job-1'' = Some j" "status j = completed"
    by auto
  from completed_has_progress_100[OF s] s show ?thesis by blast
qed








text \<open>
  Claim C9. When \<^verbatim>\<open>renderStill\<close> throws after a successful render, the job ends as
  when it does not throw: status \<^verbatim>\<open>completed\<close>, progress 100, no error set, its slot
  released; the thumbnail path is set exactly when the file exists.
\<close>

theorem thumbnail_failure_swallowed:
  assumes "run tr (newService c) = Some s"
    and "tasks s jid = Some (AwaitStill l)"
  shows "\<exists>j s'. jobs (rqueue s) jid = Some j \<and> error j = None
          \<and> step now (EvStill jid (Some e) ex) s = Some s'
          \<and> step now (EvStill jid None ex) s = Some s'
          \<and> jobs (rqueue s') jid
              = Some (j\<lparr>status := completed, progress := 100,
                        thumbnailPath := (if ex then Some (thumbnailPath_of (outputPath j)) else None),
                        completedAt := Some now\<rparr>)
          \<and> tasks s' jid = None
          \<and> jid \<notin> set (processing (rqueue s'))"
proof -
  have w: "consistent s"
    by (rule run_inv[where P = consistent, OF step_consistent consistent_newService assms(1)])
  then obtain j where j: "jobs (rqueue s) jid = Some j" "error j = None"
    using assms(2) by (auto simp: consistent_def)
  have nq: "jid \<notin> set (queue (rqueue s))" using w assms(2) by (auto simp: consistent_def)
  let ?upd = "\<lambda>j. j\<lparr>status := completed, progress := 100,
                       thumbnailPath := (if ex then Some (thumbnailPath_of (outputPath j)) else None),
                       completedAt := Some now\<rparr>"
  let ?s1 = "s\<lparr>rqueue := update jid ?upd (rqueue s)\<rparr>"
  let ?s2 = "?s1\<lparr>rqueue := complete_job jid (rqueue ?s1), tasks := (tasks ?s1)(jid := None)\<rparr>"
  have c2: "consistent ?s2"
    using w assms(2) nq unfolding consistent_def by (auto simp: jobs_update complete_job_def)
  have q2: "jid \<notin> set (queue (rqueue ?s2))" using nq by (simp add: complete_job_def)
  have st: "processJob_still now jid r ex s = processQueue now ?s2" for r
    by (simp add: processJob_still_def processJob_finally_def)
  have "jobs (rqueue ?s2) jid = Some (?upd j)" "tasks ?s2 jid = None"
    "jid \<notin> set (processing (rqueue ?s2))"
    using j by (simp_all add: jobs_update complete_job_def Set_delete_def)
  with processQueue_untouched[OF c2 q2, of now]
  have "jobs (rqueue (processQueue now ?s2)) jid = Some (?upd j)"
    "tasks (processQueue now ?s2) jid = None"
    "jid \<notin> set (processing (rqueue (processQueue now ?s2)))"
    by simp_all
  then show ?thesis using j assms(2) st by simp
qed

theorem thumbnail_failure_swallowed_witness:
  "\<exists>s s' j. run trace_rendered (newService config_default) = Some s
      \<and> step 7 (EvStill ''job-1'' (Some ''still failed'') False) s = Some s'
      \<and> jobs (rqueue s') ''job-1'' = Some j
      \<and> status j = completed \<and> progress j = 100 \<and> error j = None \<and> thumbnailPath j = None
      \<and> outputPath j = ''./output/EventPromo_0a0a0a0a.mp4''"
proof -
  have "map_option (\<lambda>s. (tasks s ''job-1'', map_option outputPath (jobs (rqueue s) ''job-1'')))
           (run trace_rendered (newService config_default))
        = Some (Some (AwaitStill ''/tmp/bundle''), Some ''./output/EventPromo_0a0a0a0a.mp4'')"
    by code_simp
  then obtain s where s: "run trace_rendered (newService config_default) = Some s"
    "tasks s ''job-1'' = Some (AwaitStill ''/tmp/bundle'')"
    "map_option outputPath (jobs (rqueue s) ''job-1'') = Some ''./output/EventPromo_0a0a0a0a.mp4''"
    by auto
  from thumbnail_failure_swallowed[OF s(1,2), of 7 "''still failed''" False] s(3)
  show ?thesis using s(1) by auto
qed

text \<open>
  Claim C10. \<^verbatim>\<open>createJob\<close> replaces a duration of 0 by the default duration of the
  (registered) composition and an fps of 0 by 30; the job it returns has neither field 0
  or unset; and for any job whatever, the fps and the number of frames that \<^verbatim>\<open>processJob\<close>
  computes for the engine are not 0.
\<close>

theorem createJob_defaults_for_zero:
  assumes "COMPOSITIONS_get (in_compositionId input) = Some (Registered c)"
  shows "\<exists>j s'. createJob now u1 u2 input s = (Inr j, s')
          \<and> (in_duration input = Some 0 \<longrightarrow> duration j = Some (defaultDuration c))
          \<and> (in_fps input = Some 0 \<longrightarrow> fps j = Some 30)
          \<and> duration j \<noteq> Some 0 \<and> duration j \<noteq> None \<and> fps j \<noteq> Some 0 \<and> fps j \<noteq> None
          \<and> rp_fps (renderParams j) \<noteq> 0 \<and> rp_durationInFrames (renderParams j) \<noteq> 0
          \<and> (\<forall>job. rp_fps (renderParams job) \<noteq> 0 \<and> rp_durationInFrames (renderParams job) \<noteq> 0)"
proof -
  let ?job = "mkJob (config s) (Registered c) now u1 u2 input"
  from createJob_found[OF assms, of now u1 u2 s] obtain j s' where
    j: "createJob now u1 u2 input s = (Inr j, s')"
       "j = ?job \<or> j = ?job\<lparr>status := bundling, startedAt := Some now\<rparr>"
    by blast
  have "map_of COMPOSITIONS (in_compositionId input) = Some c"
    using assms by (auto simp: COMPOSITIONS_get_def split: option.splits if_splits)
  then have d: "0 < defaultDuration c" by (rule COMPOSITIONS_defaultDuration)
  have n: "num_or_d x y \<noteq> 0" if "y \<noteq> 0" for x y using that by (cases x) auto
  have r: "rp_fps (renderParams job) \<noteq> 0 \<and> rp_durationInFrames (renderParams job) \<noteq> 0" for job
    by (simp add: renderParams_def Let_def n)
  have "duration ?job \<noteq> Some 0" "duration ?job \<noteq> None" "fps ?job \<noteq> Some 0" "fps ?job \<noteq> None"
    "in_duration input = Some 0 \<longrightarrow> duration ?job = Some (defaultDuration c)"
    "in_fps input = Some 0 \<longrightarrow> fps ?job = Some 30"
    using d by (cases "in_duration input"; simp add: mkJob_def Let_def n)+
  with j r show ?thesis by auto
qed

theorem createJob_defaults_for_zero_witness:
  "\<exists>j s'. createJob 0 ''0a0a0a0a-1'' ''job-1'' input_zero (newService config_default) = (Inr j, s')
      \<and> duration j = Some 10 \<and> fps j = Some 30 \<and> rp_durationInFrames (renderParams j) = 300"
proof -
  have "COMPOSITIONS_get (in_compositionId input_zero) = Some (Registered
     \<lparr>comp_id = ''EventPromo'', comp_name = ''Event Promo'',
        description = ''Single event spotlight with animated details'',
        category = ''promo'', defaultDuration = 10, contentTypes = [''event''],
        formats = [landscape, portrait, square]\<rparr>)"
    by (simp add: input_zero_def input_EventPromo_def COMPOSITIONS_get_def COMPOSITIONS_def)
  from createJob_defaults_for_zero[OF this, of 0 "''0a0a0a0a-1''" "''job-1''" "newService config_default"]
  obtain j s' where "createJob 0 ''0a0a0a0a-1'' ''job-1'' input_zero (newService config_default) = (Inr j, s')"
    "duration j = Some 10" "fps j = Some 30"
    by (auto simp: input_zero_def)
  then show ?thesis by (auto simp: renderParams_def Let_def)
qed

end
